theory Spec2Isabelle
  imports Main
begin

section \<open>SheetDAO: a spreadsheet sheet used as a record store\<close>

text \<open>
  The class \<^verbatim>\<open>SheetDAO\<close> keeps the header row of one sheet and offers
  \<^verbatim>\<open>listAll\<close>, \<^verbatim>\<open>find\<close>, \<^verbatim>\<open>add\<close>,
  \<^verbatim>\<open>update\<close> and \<^verbatim>\<open>remove\<close> on the rows below it. Its methods and
  private helpers are embedded as functions over an explicit state, which holds the sheet
  and the script lock; an exception is a value of the type \<open>error\<close>.
\<close>

subsection \<open>Values\<close>

text \<open>
  A cell holds a number, a text or a boolean; an empty cell reads as the empty text
  (\<^verbatim>\<open>getValues\<close> never yields \<^verbatim>\<open>null\<close>). Numbers are the integers:
  identifiers are integer valued, and fractions, \<^verbatim>\<open>NaN\<close> in a cell and values
  beyond the exactly representable range are not part of the model. A JavaScript value is
  \<^verbatim>\<open>undefined\<close>, \<^verbatim>\<open>null\<close> or such a scalar, and an object is the
  finite map of its own properties (names inherited from \<^verbatim>\<open>Object.prototype\<close>
  are not modelled).
\<close>

datatype cell = Num int | Str string | Bool bool

datatype jsval = Undefined | Null | Val cell

type_synonym obj = "string \<rightharpoonup> jsval"

type_synonym sheet = "cell list list"

text \<open>\<^verbatim>\<open>String(x)\<close>: decimal digits for a number, the text itself for a text.\<close>

definition digit :: "nat \<Rightarrow> char" where
  "digit n = ''0123456789'' ! n"

function NatToString :: "nat \<Rightarrow> string" where
  "NatToString n =
     (if n < 10 then [digit n] else NatToString (n div 10) @ [digit (n mod 10)])"
  by pat_completeness auto

termination
  by (relation "measure id") auto

declare NatToString.simps [simp del]

fun String_cell :: "cell \<Rightarrow> string" where
  "String_cell (Num n) =
     (if n < 0 then CHR ''-'' # NatToString (nat (- n)) else NatToString (nat n))"
| "String_cell (Str s) = s"
| "String_cell (Bool b) = (if b then ''true'' else ''false'')"

fun String_js :: "jsval \<Rightarrow> string" where
  "String_js Undefined = ''undefined''"
| "String_js Null = ''null''"
| "String_js (Val c) = String_cell c"

text \<open>
  \<^verbatim>\<open>Number(x)\<close>, with \<open>None\<close> for \<^verbatim>\<open>NaN\<close>. For a text the model reads
  what JavaScript reads as an integer in plain decimal notation: white space around it is
  dropped, the empty text is 0, an optional sign and decimal digits give their value, and
  every other text is \<^verbatim>\<open>NaN\<close>. Texts in the other numeric notations of
  JavaScript (a fraction, an exponent, a radix prefix, \<^verbatim>\<open>Infinity\<close>) are, like
  the fractional numbers, outside the model.
\<close>

definition isWhiteSpace :: "char \<Rightarrow> bool" where
  "isWhiteSpace c \<longleftrightarrow> c \<in> set [CHR 0x09, CHR 0x0A, CHR 0x0B, CHR 0x0C, CHR 0x0D, CHR '' '']"

definition trim :: "string \<Rightarrow> string" where
  "trim s = rev (dropWhile isWhiteSpace (rev (dropWhile isWhiteSpace s)))"

definition isDigit :: "char \<Rightarrow> bool" where
  "isDigit c \<longleftrightarrow> c \<in> set ''0123456789''"

definition digitValue :: "char \<Rightarrow> nat" where
  "digitValue c = of_char c - 48"

definition digitsValue :: "string \<Rightarrow> nat" where
  "digitsValue ds = foldl (\<lambda>n c. 10 * n + digitValue c) 0 ds"

definition StringToNumber :: "string \<Rightarrow> int option" where
  "StringToNumber s =
     (case trim s of
        [] \<Rightarrow> Some 0
      | c # ds \<Rightarrow>
          if (c = CHR ''-'' \<or> c = CHR ''+'') \<and> ds \<noteq> [] \<and> list_all isDigit ds
          then Some ((if c = CHR ''-'' then - 1 else 1) * int (digitsValue ds))
          else if list_all isDigit (c # ds) then Some (int (digitsValue (c # ds)))
          else None)"

fun Number_cell :: "cell \<Rightarrow> int option" where
  "Number_cell (Num n) = Some n"
| "Number_cell (Str s) = StringToNumber s"
| "Number_cell (Bool b) = Some (if b then 1 else 0)"

text \<open>\<^verbatim>\<open>Number(x) || 0\<close>: \<^verbatim>\<open>NaN\<close> and 0 are falsy, so both give 0.\<close>

fun orZero :: "int option \<Rightarrow> int" where
  "orZero None = 0"
| "orZero (Some n) = (if n = 0 then 0 else n)"

text \<open>\<^verbatim>\<open>x ?? ""\<close>: a missing property reads as \<^verbatim>\<open>undefined\<close>.\<close>

fun orEmpty :: "jsval option \<Rightarrow> cell" where
  "orEmpty None = Str ''''"
| "orEmpty (Some Undefined) = Str ''''"
| "orEmpty (Some Null) = Str ''''"
| "orEmpty (Some (Val c)) = c"

subsection \<open>The sheet and the script lock\<close>

text \<open>
  The spreadsheet service is outside the repository. A sheet is the list of its rows from
  row 1 down to the last row that has content, so \<^verbatim>\<open>getLastRow\<close> is the length of
  the list; a row lists its cells from column 1, and a cell beyond the end of its row is
  empty. A cell keeps the value written to it. Row and column positions are counted from
  1, as the service counts them.
\<close>

definition getLastRow :: "sheet \<Rightarrow> nat" where
  "getLastRow sh = length sh"

definition getValue :: "sheet \<Rightarrow> nat \<Rightarrow> nat \<Rightarrow> cell" where
  "getValue sh r c =
     (if 1 \<le> r \<and> r \<le> length sh \<and> 1 \<le> c \<and> c \<le> length (sh ! (r - 1))
      then sh ! (r - 1) ! (c - 1) else Str '''')"

text \<open>\<^verbatim>\<open>getRange(r, c, numRows, numCols).getValues()\<close>\<close>

definition getValues :: "sheet \<Rightarrow> nat \<Rightarrow> nat \<Rightarrow> nat \<Rightarrow> nat \<Rightarrow> cell list list" where
  "getValues sh r c numRows numCols =
     map (\<lambda>i. map (\<lambda>j. getValue sh (r + i) (c + j)) [0..<numCols]) [0..<numRows]"

definition appendRow :: "cell list \<Rightarrow> sheet \<Rightarrow> sheet" where
  "appendRow rowValue sh = sh @ [rowValue]"

definition deleteRow :: "nat \<Rightarrow> sheet \<Rightarrow> sheet" where
  "deleteRow r sh = take (r - 1) sh @ drop r sh"

datatype error = LockTimeout | RangeMismatch

text \<open>
  \<^verbatim>\<open>getRange(r, 1, 1, numCols).setValues([rowValue])\<close> overwrites the first
  \<open>numCols\<close> cells of row \<open>r\<close> and keeps the cells to their right; the service raises
  when the width of the data is not that of the range.
\<close>

definition setValues :: "nat \<Rightarrow> nat \<Rightarrow> cell list \<Rightarrow> sheet \<Rightarrow> error + sheet" where
  "setValues r numCols rowValue sh =
     (if length rowValue \<noteq> numCols then Inl RangeMismatch
      else if r - 1 < length sh
      then Inr (sh[r - 1 := rowValue @ drop numCols (sh ! (r - 1))])
      else Inr (sh @ replicate (r - 1 - length sh) [] @ [rowValue]))"

text \<open>
  The state: the sheet, whether this invocation holds the script lock, and after how many
  milliseconds of waiting the lock can be had (\<open>None\<close>: not at all). \<^verbatim>\<open>waitLock(ms)\<close>
  raises when the lock cannot be had within \<open>ms\<close> milliseconds.
\<close>

record world =
  grid :: sheet
  lockHeld :: bool
  lockWait :: "nat option"

definition waitLock :: "nat \<Rightarrow> world \<Rightarrow> error + world" where
  "waitLock ms w =
     (case lockWait w of
        None \<Rightarrow> Inl LockTimeout
      | Some t \<Rightarrow> if t \<le> ms then Inr (w\<lparr>lockHeld := True\<rparr>) else Inl LockTimeout)"

definition releaseLock :: "world \<Rightarrow> world" where
  "releaseLock w = w\<lparr>lockHeld := False\<rparr>"

subsection \<open>The class\<close>

text \<open>
  The constructor reads \<^verbatim>\<open>lastCol\<close>, refuses 0, and reads that many header cells;
  both fields are never assigned again. \<open>constructed\<close> is what it establishes.
\<close>

record dao =
  headers :: "cell list"
  lastCol :: nat

definition constructed :: "dao \<Rightarrow> bool" where
  "constructed d \<longleftrightarrow> lastCol d \<noteq> 0 \<and> length (headers d) = lastCol d"

text \<open>
  \<^verbatim>\<open>_toObject\<close>: \<^verbatim>\<open>reduce\<close> over the headers with their indices;
  \<^verbatim>\<open>obj[key] = rowArray[index]\<close> turns the header into a property name and reads
  \<^verbatim>\<open>undefined\<close> beyond the end of the array.
\<close>

definition toObject :: "dao \<Rightarrow> cell list \<Rightarrow> obj" where
  "toObject d rowArray =
     foldl (\<lambda>obj (index, key).
              obj(String_cell key \<mapsto>
                    (if index < length rowArray then Val (rowArray ! index) else Undefined)))
       Map.empty (enumerate 0 (headers d))"

definition toRowArray :: "dao \<Rightarrow> obj \<Rightarrow> cell list" where
  "toRowArray d obj = map (\<lambda>key. orEmpty (obj (String_cell key))) (headers d)"

text \<open>
  The loop of \<^verbatim>\<open>_getRowIndexById\<close>, from index \<open>i\<close> on:
  \<^verbatim>\<open>for (; i < idColumnValues.length; i++)\<close>. A row of \<^verbatim>\<open>getValues\<close> over one
  column has one cell, read as \<^verbatim>\<open>idColumnValues[i][0]\<close>.
\<close>

function scanIds :: "cell list list \<Rightarrow> string \<Rightarrow> nat \<Rightarrow> nat option" where
  "scanIds idColumnValues stringId i =
     (if i < length idColumnValues
      then (if String_cell (idColumnValues ! i ! 0) = stringId then Some (i + 1)
            else scanIds idColumnValues stringId (i + 1))
      else None)"
  by pat_completeness auto

termination
  by (relation "measure (\<lambda>(vs, s, i). length vs - i)") auto

declare scanIds.simps [simp del]

definition getRowIndexById :: "dao \<Rightarrow> jsval \<Rightarrow> sheet \<Rightarrow> nat option" where
  "getRowIndexById d ident sh =
     (let lastRow = getLastRow sh in
      if lastRow \<le> 1 then None
      else scanIds (getValues sh 1 1 lastRow 1) (String_js ident) 1)"

definition getObjectByRowIndex :: "dao \<Rightarrow> nat \<Rightarrow> sheet \<Rightarrow> obj" where
  "getObjectByRowIndex d rowIndex sh =
     toObject d (getValues sh rowIndex 1 1 (lastCol d) ! 0)"

definition listAll :: "dao \<Rightarrow> world \<Rightarrow> obj list" where
  "listAll d w =
     (let lastRow = getLastRow (grid w) in
      if lastRow \<le> 1 then []
      else map (toObject d) (getValues (grid w) 2 1 (lastRow - 1) (lastCol d)))"

definition find_dao :: "dao \<Rightarrow> jsval \<Rightarrow> world \<Rightarrow> obj option" where
  "find_dao d ident w =
     (case getRowIndexById d ident (grid w) of
        None \<Rightarrow> None
      | Some rowIndex \<Rightarrow> Some (getObjectByRowIndex d rowIndex (grid w)))"

text \<open>
  \<^verbatim>\<open>this.headers[0]\<close> as a property name; the object literal
  \<^verbatim>\<open>{ [idKey]: newId, ...data }\<close> defines the identifier property first and then
  copies every own property of \<^verbatim>\<open>data\<close> over it.
\<close>

definition idKey :: "dao \<Rightarrow> string" where
  "idKey d = String_js (case headers d of [] \<Rightarrow> Undefined | h # _ \<Rightarrow> Val h)"

definition add_try :: "dao \<Rightarrow> obj \<Rightarrow> world \<Rightarrow> (error + obj) \<times> world" where
  "add_try d data w =
     (case waitLock 30000 w of
        Inl e \<Rightarrow> (Inl e, w)
      | Inr w1 \<Rightarrow>
          (let lastRow = getLastRow (grid w1);
               lastId = (if lastRow \<le> 1 then Num 0 else getValue (grid w1) lastRow 1);
               newId = orZero (Number_cell lastId) + 1;
               newRecord = [idKey d \<mapsto> Val (Num newId)] ++ data;
               rowValue = toRowArray d newRecord
           in (Inr newRecord, w1\<lparr>grid := appendRow rowValue (grid w1)\<rparr>)))"

text \<open>\<^verbatim>\<open>try { ... } finally { lock.releaseLock(); }\<close>\<close>

definition add :: "dao \<Rightarrow> obj \<Rightarrow> world \<Rightarrow> (error + obj) \<times> world" where
  "add d data w = (case add_try d data w of (res, w') \<Rightarrow> (res, releaseLock w'))"

definition update_try :: "dao \<Rightarrow> jsval \<Rightarrow> obj \<Rightarrow> world \<Rightarrow> (error + bool) \<times> world" where
  "update_try d ident data w =
     (case waitLock 30000 w of
        Inl e \<Rightarrow> (Inl e, w)
      | Inr w1 \<Rightarrow>
          (case getRowIndexById d ident (grid w1) of
             None \<Rightarrow> (Inr False, w1)
           | Some rowIndex \<Rightarrow>
               (let currentRecord = getObjectByRowIndex d rowIndex (grid w1);
                    updatedRecord = currentRecord ++ data;
                    rowValue = toRowArray d updatedRecord
                in (case setValues rowIndex (lastCol d) rowValue (grid w1) of
                      Inl e \<Rightarrow> (Inl e, w1)
                    | Inr sh \<Rightarrow> (Inr True, w1\<lparr>grid := sh\<rparr>)))))"

definition update :: "dao \<Rightarrow> jsval \<Rightarrow> obj \<Rightarrow> world \<Rightarrow> (error + bool) \<times> world" where
  "update d ident data w = (case update_try d ident data w of (res, w') \<Rightarrow> (res, releaseLock w'))"

definition remove_dao :: "dao \<Rightarrow> jsval \<Rightarrow> world \<Rightarrow> bool \<times> world" where
  "remove_dao d ident w =
     (case getRowIndexById d ident (grid w) of
        None \<Rightarrow> (False, w)
      | Some rowIndex \<Rightarrow> (True, w\<lparr>grid := deleteRow rowIndex (grid w)\<rparr>))"

subsection \<open>Notions of the specification\<close>

text \<open>
  The first data row, scanning from row 2 down, whose identifier cell converted to a text
  equals the text form of the requested identifier.
\<close>

definition firstRowWithId :: "sheet \<Rightarrow> jsval \<Rightarrow> nat option" where
  "firstRowWithId sh ident =
     List.find (\<lambda>r. String_cell (getValue sh r 1) = String_js ident) [2..<Suc (length sh)]"

text \<open>
  The next identifier: the numeric value of the last row's identifier cell, or 0 if the
  table has no data rows (or that cell is not numeric), plus 1.
\<close>

definition assignedId :: "sheet \<Rightarrow> int" where
  "assignedId sh =
     (if length sh \<le> 1 then 0 else orZero (Number_cell (getValue sh (length sh) 1))) + 1"

text \<open>A sequence of calls of \<^verbatim>\<open>add\<close>; an exception ends it.\<close>

fun add_calls :: "dao \<Rightarrow> obj list \<Rightarrow> world \<Rightarrow> (error + obj list) \<times> world" where
  "add_calls d [] w = (Inr [], w)"
| "add_calls d (data # rest) w =
     (case add d data w of
        (Inl e, w') \<Rightarrow> (Inl e, w')
      | (Inr r, w') \<Rightarrow>
          (case add_calls d rest w' of
             (Inl e, w'') \<Rightarrow> (Inl e, w'')
           | (Inr rs, w'') \<Rightarrow> (Inr (r # rs), w'')))"

text \<open>
  The record of row \<open>r\<close>: the header names paired, in order, with the cells of the row in
  columns 1, 2, ...; where a name is repeated the later column stands.
\<close>

definition rowRecord :: "dao \<Rightarrow> sheet \<Rightarrow> nat \<Rightarrow> obj" where
  "rowRecord d sh r =
     map_of (rev (zip (map String_cell (headers d))
                      (map (\<lambda>j. Val (getValue sh r (Suc j))) [0..<length (headers d)])))"

text \<open>The first row below row \<open>r\<close> that carries the identifier.\<close>

definition nextRowWithId :: "sheet \<Rightarrow> jsval \<Rightarrow> nat \<Rightarrow> nat option" where
  "nextRowWithId sh ident r =
     List.find (\<lambda>r'. String_cell (getValue sh r' 1) = String_js ident) [Suc r..<Suc (length sh)]"

subsection \<open>Example tables\<close>

definition people :: dao where
  "people = \<lparr>headers = [Str ''id'', Str ''name'', Str ''age''], lastCol = 3\<rparr>"

definition emptyTable :: world where
  "emptyTable =
     \<lparr>grid = [[Str ''id'', Str ''name'', Str ''age'']], lockHeld = False, lockWait = Some 0\<rparr>"

definition annTable :: world where
  "annTable =
     \<lparr>grid = [[Str ''id'', Str ''name'', Str ''age''], [Num 1, Str ''Ann'', Num 30]],
      lockHeld = False, lockWait = Some 0\<rparr>"

definition twoTable :: world where
  "twoTable =
     \<lparr>grid = [[Str ''id'', Str ''name'', Str ''age''], [Num 1, Str ''Ann'', Num 30],
              [Num 2, Str ''Bo'', Str '''']],
      lockHeld = False, lockWait = Some 0\<rparr>"

definition dupTable :: world where
  "dupTable =
     \<lparr>grid = [[Str ''id'', Str ''name'', Str ''age''], [Num 1, Str ''Ann'', Num 30],
              [Num 1, Str ''Bo'', Str '''']],
      lockHeld = False, lockWait = Some 0\<rparr>"

definition busyTable :: world where
  "busyTable =
     \<lparr>grid = [[Str ''id'', Str ''name'', Str ''age''], [Num 1, Str ''Ann'', Num 30]],
      lockHeld = False, lockWait = Some 30001\<rparr>"

definition boInput :: obj where
  "boInput = [''name'' \<mapsto> Val (Str ''Bo'')]"

definition boRecord :: obj where
  "boRecord = [''id'' \<mapsto> Val (Num 2), ''name'' \<mapsto> Val (Str ''Bo'')]"

definition cyInput :: obj where
  "cyInput = [''name'' \<mapsto> Val (Str ''Cy''), ''age'' \<mapsto> Val (Num 25)]"

definition cyRecord :: obj where
  "cyRecord = [''id'' \<mapsto> Val (Num 2), ''name'' \<mapsto> Val (Str ''Cy''), ''age'' \<mapsto> Val (Num 25)]"

section \<open>Properties\<close>

subsection \<open>Reading and writing the sheet\<close>

lemma length_getValues: "length (getValues sh r c n m) = n"
  by (simp add: getValues_def)

lemma getValues_written:
  assumes "1 \<le> r" "r \<le> length sh"
  shows "getValues (sh[r - 1 := row @ rest]) r 1 1 (length row) ! 0 = row"
  using assms
  by (intro nth_equalityI) (simp_all add: getValues_def getValue_def nth_append)

lemma getValues_appended:
  "getValues (sh @ [row]) (Suc (length sh)) 1 1 (length row) ! 0 = row"
  by (intro nth_equalityI) (simp_all add: getValues_def getValue_def)

lemma getValue_appended:
  "r \<le> length sh \<Longrightarrow> getValue (sh @ [row]) r c = getValue sh r c"
  by (auto simp add: getValue_def nth_append)

lemma getValue_deleteRow:
  assumes "1 \<le> r" "r \<le> length sh" "1 \<le> p"
  shows "getValue (deleteRow r sh) p c = (if p < r then getValue sh p c else getValue sh (Suc p) c)"
  using assms by (auto simp add: getValue_def deleteRow_def nth_append min_def)

subsection \<open>Looking a row up\<close>

lemma scanIds_find:
  "scanIds vs sid i =
     map_option Suc (List.find (\<lambda>j. String_cell (vs ! j ! 0) = sid) [i..<length vs])"
proof (induction vs sid i rule: scanIds.induct)
  case (1 vs sid i)
  show ?case
  proof (cases "i < length vs")
    case True
    then have u: "[i..<length vs] = i # [Suc i..<length vs]"
      by (simp add: upt_conv_Cons)
    show ?thesis
      using True "1.IH" by (subst scanIds.simps) (simp add: u)
  next
    case False
    then show ?thesis by (subst scanIds.simps) simp
  qed
qed

lemma find_map_Suc:
  "List.find P (map Suc xs) = map_option Suc (List.find (\<lambda>j. P (Suc j)) xs)"
  by (induction xs) auto

lemma find_cong_upt:
  "(\<And>j. a \<le> j \<Longrightarrow> j < b \<Longrightarrow> P j = Q j) \<Longrightarrow> List.find P [a..<b] = List.find Q [a..<b]"
  by (rule find_cong) auto

lemma getRowIndexById_firstRow: "getRowIndexById d ident sh = firstRowWithId sh ident"
proof (cases "length sh \<le> 1")
  case True
  then have "[2..<Suc (length sh)] = []" by simp
  then show ?thesis
    using True by (simp add: getRowIndexById_def firstRowWithId_def getLastRow_def)
next
  case False
  have m: "[2..<Suc (length sh)] = map Suc [1..<length sh]"
    by (simp add: map_Suc_upt numeral_2_eq_2)
  have "scanIds (getValues sh 1 1 (length sh) 1) (String_js ident) 1 =
        map_option Suc (List.find (\<lambda>j. String_cell (getValue sh (Suc j) 1) = String_js ident)
          [1..<length sh])"
    unfolding scanIds_find length_getValues
    by (rule arg_cong [where f = "map_option Suc"], rule find_cong_upt)
       (simp add: getValues_def)
  then show ?thesis
    using False
    by (simp add: getRowIndexById_def firstRowWithId_def getLastRow_def m find_map_Suc
          del: upt_Suc)
qed

lemma find_upt_Some_iff:
  "List.find P [a..<b] = Some r \<longleftrightarrow>
     a \<le> r \<and> r < b \<and> P r \<and> (\<forall>r'. a \<le> r' \<and> r' < r \<longrightarrow> \<not> P r')"
  (is "?L \<longleftrightarrow> ?R")
proof
  assume ?L
  then obtain i where i: "i < length [a..<b]" "P ([a..<b] ! i)" "r = [a..<b] ! i"
      "\<forall>j<i. \<not> P ([a..<b] ! j)"
    unfolding find_Some_iff by blast
  from i(1) have il: "a + i < b" by simp
  then have ri: "r = a + i" using i(3) by simp
  have "\<not> P r'" if a: "a \<le> r'" "r' < r" for r'
  proof -
    have "r' - a < i" using a ri by simp
    moreover have "[a..<b] ! (r' - a) = r'"
      using a ri il by simp
    ultimately show ?thesis
      using i(4) by metis
  qed
  then show ?R using i(2) il ri by auto
next
  assume ?R
  then have ra: "a \<le> r" and rb: "r < b" and pr: "P r"
    and mn: "\<And>r'. a \<le> r' \<Longrightarrow> r' < r \<Longrightarrow> \<not> P r'"
    by auto
  let ?i = "r - a"
  have 1: "?i < length [a..<b]" using ra rb by simp
  have 2: "[a..<b] ! ?i = r" using ra rb by simp
  have 3: "\<forall>j< ?i. \<not> P ([a..<b] ! j)"
  proof (intro allI impI)
    fix j assume j: "j < ?i"
    then have "[a..<b] ! j = a + j" using ra rb by simp
    then show "\<not> P ([a..<b] ! j)"
      using mn [of "a + j"] j by simp
  qed
  show ?L
    unfolding find_Some_iff
    using 1 2 3 pr by (intro exI [of _ ?i]) simp
qed

lemma firstRow_Some_iff:
  "firstRowWithId sh ident = Some r \<longleftrightarrow>
     2 \<le> r \<and> r \<le> length sh \<and> String_cell (getValue sh r 1) = String_js ident \<and>
     (\<forall>r'. 2 \<le> r' \<and> r' < r \<longrightarrow> String_cell (getValue sh r' 1) \<noteq> String_js ident)"
  unfolding firstRowWithId_def find_upt_Some_iff by auto

lemma firstRow_None_iff:
  "firstRowWithId sh ident = None \<longleftrightarrow>
     (\<forall>r. 2 \<le> r \<and> r \<le> length sh \<longrightarrow> String_cell (getValue sh r 1) \<noteq> String_js ident)"
  unfolding firstRowWithId_def find_None_iff by auto

lemma find_after_remove:
  assumes "firstRowWithId sh ident = Some r"
  shows "firstRowWithId (deleteRow r sh) ident = None \<longleftrightarrow>
     (\<forall>r'. r < r' \<and> r' \<le> length sh \<longrightarrow> String_cell (getValue sh r' 1) \<noteq> String_js ident)"
proof -
  from assms have r: "2 \<le> r" "r \<le> length sh"
    and before: "\<And>p. 2 \<le> p \<Longrightarrow> p < r \<Longrightarrow> String_cell (getValue sh p 1) \<noteq> String_js ident"
    by (auto simp add: firstRow_Some_iff)
  have len: "length (deleteRow r sh) = length sh - 1"
    using r by (simp add: deleteRow_def)
  have gv: "getValue (deleteRow r sh) p 1 = (if p < r then getValue sh p 1 else getValue sh (Suc p) 1)"
    if "1 \<le> p" for p
    using r that by (intro getValue_deleteRow) simp_all
  show ?thesis
  proof
    assume n: "firstRowWithId (deleteRow r sh) ident = None"
    show "\<forall>r'. r < r' \<and> r' \<le> length sh \<longrightarrow> String_cell (getValue sh r' 1) \<noteq> String_js ident"
    proof (intro allI impI)
      fix r' assume a: "r < r' \<and> r' \<le> length sh"
      then have "2 \<le> r' - 1 \<and> r' - 1 \<le> length (deleteRow r sh)"
        using r len by arith
      then have "String_cell (getValue (deleteRow r sh) (r' - 1) 1) \<noteq> String_js ident"
        using n unfolding firstRow_None_iff by blast
      moreover have "getValue (deleteRow r sh) (r' - 1) 1 = getValue sh r' 1"
        using a r gv [of "r' - 1"] by auto
      ultimately show "String_cell (getValue sh r' 1) \<noteq> String_js ident" by simp
    qed
  next
    assume later: "\<forall>r'. r < r' \<and> r' \<le> length sh \<longrightarrow> String_cell (getValue sh r' 1) \<noteq> String_js ident"
    show "firstRowWithId (deleteRow r sh) ident = None"
      unfolding firstRow_None_iff
    proof (intro allI impI)
      fix p assume p: "2 \<le> p \<and> p \<le> length (deleteRow r sh)"
      show "String_cell (getValue (deleteRow r sh) p 1) \<noteq> String_js ident"
      proof (cases "p < r")
        case True
        then show ?thesis using p before [of p] gv [of p] by simp
      next
        case False
        then have "r < Suc p \<and> Suc p \<le> length sh"
          using p len r by arith
        then have "String_cell (getValue sh (Suc p) 1) \<noteq> String_js ident"
          using later by blast
        then show ?thesis using False p gv [of p] by simp
      qed
    qed
  qed
qed

lemma find_upt_None_iff:
  "List.find P [a..<b] = None \<longleftrightarrow> (\<forall>x. a \<le> x \<and> x < b \<longrightarrow> \<not> P x)"
  by (auto simp add: find_None_iff)

lemma first_after_remove:
  assumes "firstRowWithId sh ident = Some r"
  shows "firstRowWithId (deleteRow r sh) ident = map_option (\<lambda>r'. r' - 1) (nextRowWithId sh ident r)"
proof (cases "nextRowWithId sh ident r")
  case None
  then have "\<forall>r'. r < r' \<and> r' \<le> length sh \<longrightarrow> String_cell (getValue sh r' 1) \<noteq> String_js ident"
    unfolding nextRowWithId_def find_upt_None_iff by (simp add: less_Suc_eq_le Suc_le_eq)
  then show ?thesis
    using find_after_remove [OF assms] None by simp
next
  case (Some r')
  from assms have r: "2 \<le> r" "r \<le> length sh"
    and before: "\<And>p. 2 \<le> p \<Longrightarrow> p < r \<Longrightarrow> String_cell (getValue sh p 1) \<noteq> String_js ident"
    by (auto simp add: firstRow_Some_iff)
  from Some have r': "Suc r \<le> r'" "r' < Suc (length sh)"
    and m: "String_cell (getValue sh r' 1) = String_js ident"
    and between: "\<And>p. Suc r \<le> p \<Longrightarrow> p < r' \<Longrightarrow> String_cell (getValue sh p 1) \<noteq> String_js ident"
    unfolding nextRowWithId_def find_upt_Some_iff by auto
  have len: "length (deleteRow r sh) = length sh - 1"
    using r by (simp add: deleteRow_def)
  have gv: "getValue (deleteRow r sh) p 1 = (if p < r then getValue sh p 1 else getValue sh (Suc p) 1)"
    if "1 \<le> p" for p
    using r that by (intro getValue_deleteRow) simp_all
  have "firstRowWithId (deleteRow r sh) ident = Some (r' - 1)"
    unfolding firstRow_Some_iff
  proof (intro conjI allI impI)
    show "2 \<le> r' - 1" using r r' by arith
    show "r' - 1 \<le> length (deleteRow r sh)" using r' len by arith
    have q: "1 \<le> r' - 1" "\<not> r' - 1 < r" "Suc (r' - 1) = r'"
      using r r' by arith+
    show "String_cell (getValue (deleteRow r sh) (r' - 1) 1) = String_js ident"
      unfolding gv [OF q(1)] using q(2,3) m by simp
  next
    fix p assume p: "2 \<le> p \<and> p < r' - 1"
    show "String_cell (getValue (deleteRow r sh) p 1) \<noteq> String_js ident"
    proof (cases "p < r")
      case True
      then show ?thesis using p before [of p] gv [of p] by simp
    next
      case False
      then have "Suc r \<le> Suc p" "Suc p < r'" using p by arith+
      then have "String_cell (getValue sh (Suc p) 1) \<noteq> String_js ident"
        by (rule between)
      then show ?thesis using False p gv [of p] by simp
    qed
  qed
  then show ?thesis using Some by simp
qed

subsection \<open>Rows and records\<close>

lemma toObject_snoc:
  "toObject (d\<lparr>headers := hs @ [h]\<rparr>) row =
     (toObject (d\<lparr>headers := hs\<rparr>) row)
       (String_cell h \<mapsto> (if length hs < length row then Val (row ! length hs) else Undefined))"
  by (simp add: toObject_def enumerate_append_eq)

lemma toObject_Nil: "toObject (d\<lparr>headers := []\<rparr>) row = Map.empty"
  by (simp add: toObject_def)

lemma toObject_toRowArray_aux:
  "toObject (d\<lparr>headers := hs\<rparr>) (map (\<lambda>key. orEmpty (m (String_cell key))) (hs @ rest)) =
     (\<lambda>k. if k \<in> String_cell ` set hs then Some (Val (orEmpty (m k))) else None)"
proof (induction hs arbitrary: rest rule: rev_induct)
  case Nil
  show ?case by (simp add: toObject_Nil)
next
  case (snoc h hs)
  have "toObject (d\<lparr>headers := hs\<rparr>) (map (\<lambda>key. orEmpty (m (String_cell key))) (hs @ h # rest)) =
     (\<lambda>k. if k \<in> String_cell ` set hs then Some (Val (orEmpty (m k))) else None)"
    by (rule snoc.IH)
  then show ?case
    by (auto simp add: toObject_snoc nth_append fun_eq_iff)
qed

lemma toObject_toRowArray:
  "toObject d (toRowArray d m) =
     (\<lambda>k. if k \<in> String_cell ` set (headers d) then Some (Val (orEmpty (m k))) else None)"
  using toObject_toRowArray_aux [where d = d and hs = "headers d" and m = m and rest = "[]"]
  by (simp add: toRowArray_def)







lemma length_toRowArray: "length (toRowArray d m) = length (headers d)"
  by (simp add: toRowArray_def)

lemma constructed_headers: "constructed d \<Longrightarrow> headers d \<noteq> []"
  by (auto simp add: constructed_def)

lemma toRowArray_first:
  "headers d \<noteq> [] \<Longrightarrow> toRowArray d m ! 0 = orEmpty (m (idKey d))"
  by (cases "headers d") (simp_all add: toRowArray_def idKey_def)

lemma getObject_after_update:
  assumes "constructed d" "1 \<le> r" "r \<le> length sh"
  shows "getObjectByRowIndex d r (sh[r - 1 := toRowArray d m @ rest]) =
     (\<lambda>k. if k \<in> String_cell ` set (headers d) then Some (Val (orEmpty (m k))) else None)"
proof -
  have "getValues (sh[r - 1 := toRowArray d m @ rest]) r 1 1 (length (toRowArray d m)) ! 0 =
        toRowArray d m"
    using assms(2,3) by (rule getValues_written)
  then show ?thesis
    using assms(1)
    by (simp add: getObjectByRowIndex_def constructed_def length_toRowArray toObject_toRowArray)
qed



lemma zip_snoc_longer:
  "length xs < length ys \<Longrightarrow> zip (xs @ [x]) ys = zip xs ys @ [(x, ys ! length xs)]"
proof (induction xs arbitrary: ys)
  case Nil
  then show ?case by (cases ys) simp_all
next
  case (Cons a xs)
  then show ?case by (cases ys) simp_all
qed

lemma toObject_zip_aux:
  "length hs \<le> length row \<Longrightarrow>
   toObject (d\<lparr>headers := hs\<rparr>) row = map_of (rev (zip (map String_cell hs) (map Val row)))"
proof (induction hs rule: rev_induct)
  case Nil
  show ?case by (simp add: toObject_Nil)
next
  case (snoc h hs)
  then have lt: "length hs < length row" by simp
  then have "zip (map String_cell hs @ [String_cell h]) (map Val row) =
      zip (map String_cell hs) (map Val row) @ [(String_cell h, Val (row ! length hs))]"
    using zip_snoc_longer [of "map String_cell hs" "map Val row" "String_cell h"] by simp
  then show ?case
    using snoc.IH lt by (simp add: toObject_snoc)
qed

lemma toObject_zip:
  "length (headers d) \<le> length row \<Longrightarrow>
   toObject d row = map_of (rev (zip (map String_cell (headers d)) (map Val row)))"
  using toObject_zip_aux [where d = d and hs = "headers d" and row = row] by simp

lemma getObject_rowRecord:
  assumes "constructed d"
  shows "getObjectByRowIndex d r sh = rowRecord d sh r"
proof -
  from assms have len: "length (headers d) = lastCol d"
    by (simp add: constructed_def)
  have row: "getValues sh r 1 1 (lastCol d) ! 0 = map (\<lambda>j. getValue sh r (Suc j)) [0..<lastCol d]"
    by (simp add: getValues_def)
  show ?thesis
    unfolding getObjectByRowIndex_def rowRecord_def row
    using toObject_zip [of d "map (\<lambda>j. getValue sh r (Suc j)) [0..<lastCol d]"] len
    by (simp add: comp_def)
qed

lemma rowRecord_deleteRow:
  assumes "1 \<le> r" "r \<le> length sh" "r < r'"
  shows "rowRecord d (deleteRow r sh) (r' - 1) = rowRecord d sh r'"
proof -
  have p: "1 \<le> r' - 1" "\<not> r' - 1 < r" "Suc (r' - 1) = r'"
    using assms by arith+
  have "getValue (deleteRow r sh) (r' - 1) c = getValue sh r' c" for c
    unfolding getValue_deleteRow [OF assms(1,2) p(1)] using p(2,3) by simp
  then show ?thesis
    by (simp add: rowRecord_def)
qed

lemma rowRecord_dom: "dom (rowRecord d sh r) = String_cell ` set (headers d)"
proof -
  have "length (map String_cell (headers d)) =
        length (map (\<lambda>j. Val (getValue sh r (Suc j))) [0..<length (headers d)])"
    by simp
  then have "fst ` set (zip (map String_cell (headers d))
        (map (\<lambda>j. Val (getValue sh r (Suc j))) [0..<length (headers d)])) =
      set (map String_cell (headers d))"
    by (metis map_fst_zip set_map)
  then show ?thesis
    unfolding rowRecord_def dom_map_of_conv_image_fst set_rev by simp
qed

lemma rowRecord_column:
  assumes "distinct (map String_cell (headers d))" and "j < length (headers d)"
  shows "rowRecord d sh r (String_cell (headers d ! j)) = Some (Val (getValue sh r (Suc j)))"
proof -
  let ?ks = "map String_cell (headers d)"
  let ?vs = "map (\<lambda>j. Val (getValue sh r (Suc j))) [0..<length (headers d)]"
  have len: "length ?ks = length ?vs" by simp
  have d: "distinct (map fst (zip ?ks ?vs))"
    using assms(1) len by (simp only: map_fst_zip)
  have "(?ks ! j, ?vs ! j) \<in> set (zip ?ks ?vs)"
    using assms(2) len by (auto simp add: set_zip intro!: exI [of _ j])
  then have "map_of (zip ?ks ?vs) (?ks ! j) = Some (?vs ! j)"
    using d by (intro map_of_is_SomeI)
  moreover have "map_of (rev (zip ?ks ?vs)) = map_of (zip ?ks ?vs)"
    using d by (intro map_of_inject_set [THEN iffD2]) (simp_all add: rev_map [symmetric])
  moreover have "?vs ! j = Val (getValue sh r (Suc j))"
    using assms(2) by simp
  ultimately show ?thesis
    using assms(2) by (simp add: rowRecord_def)
qed

subsection \<open>The operations\<close>

lemma add_eq:
  assumes "lockWait w = Some t" "t \<le> 30000"
  shows "add d data w =
     (Inr ([idKey d \<mapsto> Val (Num (assignedId (grid w)))] ++ data),
      w\<lparr>grid := grid w @ [toRowArray d ([idKey d \<mapsto> Val (Num (assignedId (grid w)))] ++ data)],
        lockHeld := False\<rparr>)"
  using assms
  by (simp add: add_def add_try_def waitLock_def releaseLock_def getLastRow_def appendRow_def
      assignedId_def Let_def)

lemma add_timeout:
  assumes "waitLock 30000 w = Inl e"
  shows "add d data w = (Inl LockTimeout, w\<lparr>lockHeld := False\<rparr>)"
  using assms
  by (auto simp add: add_def add_try_def waitLock_def releaseLock_def split: option.splits if_splits)

lemma add_Inr_lock:
  assumes "add d data w = (Inr R, w')"
  shows "\<exists>t. lockWait w = Some t \<and> t \<le> 30000"
  using assms
  by (auto simp add: add_def add_try_def waitLock_def split: option.splits if_splits)

lemma add_Inr_eq:
  assumes "add d data w = (Inr R, w')"
  shows "R = [idKey d \<mapsto> Val (Num (assignedId (grid w)))] ++ data \<and>
     w' = w\<lparr>grid := grid w @ [toRowArray d R], lockHeld := False\<rparr>"
proof -
  from assms obtain t where "lockWait w = Some t" "t \<le> 30000"
    using add_Inr_lock by blast
  then show ?thesis
    using assms add_eq [of w t d data] by auto
qed

lemma add_input_id_kept:
  assumes "add d data w = (Inr R, w')" and "data (idKey d) = Some v"
  shows "R (idKey d) = Some v"
  using add_Inr_eq [OF assms(1)] assms(2) by (simp add: map_add_def)

lemma assignedId_appended:
  assumes "sh \<noteq> []" "row \<noteq> []" "row ! 0 = Num a"
  shows "assignedId (sh @ [row]) = a + 1"
proof -
  from assms(1) have "\<not> length (sh @ [row]) \<le> 1"
    by (cases sh) simp_all
  moreover have "getValue (sh @ [row]) (length (sh @ [row])) 1 = Num a"
    using assms(2,3) by (cases row) (simp_all add: getValue_def)
  ultimately show ?thesis
    unfolding assignedId_def by simp
qed

lemma add_calls_ids:
  assumes "constructed d" and "\<forall>data \<in> set ds. data (idKey d) = None"
    and "grid w \<noteq> []" and "add_calls d ds w = (Inr Rs, w')"
  shows "map (\<lambda>R. R (idKey d)) Rs =
     map (\<lambda>i. Some (Val (Num (assignedId (grid w) + int i)))) [0..<length ds]"
  using assms(2-4)
proof (induction ds arbitrary: w Rs w')
  case Nil
  then show ?case by simp
next
  case (Cons data ds)
  from Cons.prems(3) obtain R w1 Rs' where a: "add d data w = (Inr R, w1)"
    and c: "add_calls d ds w1 = (Inr Rs', w')" and Rs: "Rs = R # Rs'"
    by (auto split: prod.splits sum.splits)
  from assms(1) have ne: "headers d \<noteq> []"
    by (rule constructed_headers)
  have none: "data (idKey d) = None" using Cons.prems(1) by simp
  from add_Inr_eq [OF a] have R: "R = [idKey d \<mapsto> Val (Num (assignedId (grid w)))] ++ data"
    and w1: "grid w1 = grid w @ [toRowArray d R]"
    by simp_all
  from R none have Rid: "R (idKey d) = Some (Val (Num (assignedId (grid w))))"
    by (simp add: map_add_def)
  have "toRowArray d R \<noteq> []"
    using ne by (simp add: toRowArray_def)
  moreover have "toRowArray d R ! 0 = Num (assignedId (grid w))"
    using toRowArray_first [OF ne, of R] Rid by simp
  ultimately have next_id: "assignedId (grid w1) = assignedId (grid w) + 1"
    unfolding w1 using Cons.prems(2) by (intro assignedId_appended)
  have "map (\<lambda>R. R (idKey d)) Rs' =
     map (\<lambda>i. Some (Val (Num (assignedId (grid w1) + int i)))) [0..<length ds]"
    using Cons.prems(1) c by (intro Cons.IH) (simp_all add: w1)
  then have "map (\<lambda>R. R (idKey d)) Rs' =
     map (\<lambda>i. Some (Val (Num (assignedId (grid w) + int (Suc i))))) [0..<length ds]"
    by (simp add: next_id add.assoc add.commute)
  then show ?case
    unfolding Rs using Rid by (simp add: upt_conv_Cons map_Suc_upt [symmetric] del: upt_Suc)
qed

lemma add_calls_ids_header_only:
  assumes "constructed d" and "\<forall>data \<in> set ds. data (idKey d) = None"
    and "length (grid w) = 1" and "add_calls d ds w = (Inr Rs, w')"
  shows "map (\<lambda>R. R (idKey d)) Rs = map (\<lambda>i. Some (Val (Num (1 + int i)))) [0..<length ds]"
proof -
  from assms(3) have "grid w \<noteq> []" by auto
  from add_calls_ids [OF assms(1,2) this assms(4)] assms(3)
  show ?thesis by (simp add: assignedId_def)
qed

lemma update_timeout:
  assumes "waitLock 30000 w = Inl e"
  shows "update d ident data w = (Inl LockTimeout, w\<lparr>lockHeld := False\<rparr>)"
  using assms
  by (auto simp add: update_def update_try_def waitLock_def releaseLock_def split: option.splits if_splits)

lemma update_missing:
  assumes "lockWait w = Some t" "t \<le> 30000" "firstRowWithId (grid w) ident = None"
  shows "update d ident data w = (Inr False, w\<lparr>lockHeld := False\<rparr>)"
  using assms
  by (simp add: update_def update_try_def waitLock_def releaseLock_def getRowIndexById_firstRow)

lemma update_found:
  assumes "lockWait w = Some t" "t \<le> 30000" "firstRowWithId (grid w) ident = Some r"
    "length (headers d) = lastCol d"
  shows "update d ident data w =
     (Inr True,
      w\<lparr>grid := (grid w)[r - 1 :=
                toRowArray d (getObjectByRowIndex d r (grid w) ++ data) @
                drop (lastCol d) (grid w ! (r - 1))],
        lockHeld := False\<rparr>)"
proof -
  from assms(3) have "r - 1 < length (grid w)"
    by (auto simp add: firstRow_Some_iff)
  then show ?thesis
    using assms
    by (simp add: update_def update_try_def waitLock_def releaseLock_def getRowIndexById_firstRow
        setValues_def toRowArray_def Let_def)
qed

lemma update_record:
  assumes "constructed d" and "lockWait w = Some t" and "t \<le> 30000"
    and "firstRowWithId (grid w) ident = Some r"
  shows "getObjectByRowIndex d r (grid (snd (update d ident data w))) =
     (\<lambda>k. if k \<in> String_cell ` set (headers d)
          then Some (Val (orEmpty ((getObjectByRowIndex d r (grid w) ++ data) k))) else None)"
proof -
  from assms(1) have len: "length (headers d) = lastCol d"
    by (simp add: constructed_def)
  from assms(4) have r: "1 \<le> r" "r \<le> length (grid w)"
    by (auto simp add: firstRow_Some_iff)
  show ?thesis
    unfolding update_found [OF assms(2,3,4) len]
    using getObject_after_update [OF assms(1) r] by simp
qed

lemma update_id_cell:
  assumes "constructed d" and "lockWait w = Some t" and "t \<le> 30000"
    and "firstRowWithId (grid w) ident = Some r"
  shows "fst (update d ident data w) = Inr True \<and>
     getValue (grid (snd (update d ident data w))) r 1 =
       orEmpty ((getObjectByRowIndex d r (grid w) ++ data) (idKey d))"
proof -
  let ?m = "getObjectByRowIndex d r (grid w) ++ data"
  let ?rest = "drop (lastCol d) (grid w ! (r - 1))"
  from assms(1) have len: "length (headers d) = lastCol d" and ne: "headers d \<noteq> []"
    by (auto simp add: constructed_def)
  have u: "update d ident data w =
      (Inr True, w\<lparr>grid := (grid w)[r - 1 := toRowArray d ?m @ ?rest], lockHeld := False\<rparr>)"
    using assms(2,3,4) len by (rule update_found)
  from assms(4) have r: "1 \<le> r" "r \<le> length (grid w)"
    by (auto simp add: firstRow_Some_iff)
  have "0 < lastCol d"
    using assms(1) by (simp add: constructed_def)
  then have "getValue ((grid w)[r - 1 := toRowArray d ?m @ ?rest]) r 1 = toRowArray d ?m ! 0"
    using r len by (simp add: getValue_def nth_append length_toRowArray)
  then show ?thesis
    unfolding u using toRowArray_first [OF ne, of ?m] by simp
qed

lemma find_after_remove_record:
  assumes "constructed d" "firstRowWithId (grid w) ident = Some r"
  shows "find_dao d ident (snd (remove_dao d ident w)) =
     (case nextRowWithId (grid w) ident r of
        None \<Rightarrow> None
      | Some r' \<Rightarrow> Some (rowRecord d (grid w) r'))"
proof -
  from assms(2) have r: "1 \<le> r" "r \<le> length (grid w)"
    by (auto simp add: firstRow_Some_iff)
  have rm: "snd (remove_dao d ident w) = w\<lparr>grid := deleteRow r (grid w)\<rparr>"
    using assms(2) by (simp add: remove_dao_def getRowIndexById_firstRow)
  show ?thesis
  proof (cases "nextRowWithId (grid w) ident r")
    case None
    then show ?thesis
      unfolding rm using first_after_remove [OF assms(2)]
      by (simp add: find_dao_def getRowIndexById_firstRow)
  next
    case (Some r')
    then have "r < r'"
      unfolding nextRowWithId_def find_upt_Some_iff by simp
    then have "rowRecord d (deleteRow r (grid w)) (r' - 1) = rowRecord d (grid w) r'"
      using r by (intro rowRecord_deleteRow)
    then show ?thesis
      unfolding rm using first_after_remove [OF assms(2)] Some
      by (simp add: find_dao_def getRowIndexById_firstRow getObject_rowRecord [OF assms(1)])
  qed
qed

subsection \<open>The example tables evaluated\<close>

lemma String_Num_1: "String_cell (Num 1) = ''1''"
  by (simp add: NatToString.simps digit_def)

lemma String_Num_2: "String_cell (Num 2) = ''2''"
  by (simp add: NatToString.simps digit_def)

lemma String_Num_5: "String_cell (Num 5) = ''5''"
  by (simp add: NatToString.simps digit_def)

lemma String_Num_7: "String_cell (Num 7) = ''7''"
  by (simp add: NatToString.simps digit_def)

lemmas String_Nums = String_Num_1 String_Num_2 String_Num_5 String_Num_7

lemma constructed_people: "constructed people"
  by (simp add: constructed_def people_def)

lemma idKey_people: "idKey people = ''id''"
  by (simp add: idKey_def people_def)

lemma assignedId_emptyTable: "assignedId (grid emptyTable) = 1"
  by (simp add: assignedId_def emptyTable_def)

lemma assignedId_annTable: "assignedId (grid annTable) = 2"
  by (simp add: assignedId_def annTable_def getValue_def)

lemma firstRow_annTable_1: "firstRowWithId (grid annTable) (Val (Num 1)) = Some 2"
  by (simp add: firstRowWithId_def annTable_def getValue_def String_Nums upt_rec
      del: String_cell.simps(1))

lemma firstRow_annTable_2: "firstRowWithId (grid annTable) (Val (Num 2)) = None"
  by (simp add: firstRowWithId_def annTable_def getValue_def String_Nums upt_rec
      del: String_cell.simps(1))

lemma firstRow_twoTable_2: "firstRowWithId (grid twoTable) (Val (Num 2)) = Some 3"
  by (simp add: firstRowWithId_def twoTable_def getValue_def String_Nums upt_rec
      del: String_cell.simps(1))

lemma firstRow_twoTable_7: "firstRowWithId (grid twoTable) (Val (Num 7)) = None"
  by (simp add: firstRowWithId_def twoTable_def getValue_def String_Nums upt_rec
      del: String_cell.simps(1))

lemma firstRow_dupTable_1: "firstRowWithId (grid dupTable) (Val (Num 1)) = Some 2"
  by (simp add: firstRowWithId_def dupTable_def getValue_def String_Nums upt_rec
      del: String_cell.simps(1))

lemma firstRow_annTable_text_1: "firstRowWithId (grid annTable) (Val (Str ''1'')) = Some 2"
  by (simp add: firstRowWithId_def annTable_def getValue_def String_Nums upt_rec
      del: String_cell.simps(1))

lemma nextRow_twoTable_2: "nextRowWithId (grid twoTable) (Val (Num 2)) 3 = None"
  by (simp add: nextRowWithId_def twoTable_def)

lemma nextRow_dupTable_1: "nextRowWithId (grid dupTable) (Val (Num 1)) 2 = Some 3"
  by (simp add: nextRowWithId_def dupTable_def getValue_def String_Nums upt_rec
      del: String_cell.simps(1))

lemma rowRecord_annTable_2:
  "rowRecord people (grid annTable) 2 =
     [''id'' \<mapsto> Val (Num 1), ''name'' \<mapsto> Val (Str ''Ann''), ''age'' \<mapsto> Val (Num 30)]"
  by (simp add: rowRecord_def people_def annTable_def getValue_def upt_rec)

lemma rowRecord_dupTable_3:
  "rowRecord people (grid dupTable) 3 =
     [''id'' \<mapsto> Val (Num 1), ''name'' \<mapsto> Val (Str ''Bo''), ''age'' \<mapsto> Val (Str '''')]"
  by (simp add: rowRecord_def people_def dupTable_def getValue_def upt_rec)


lemma getObject_twoTable_3:
  "getObjectByRowIndex people 3 (grid twoTable) =
     [''id'' \<mapsto> Val (Num 2), ''name'' \<mapsto> Val (Str ''Bo''), ''age'' \<mapsto> Val (Str '''')]"
  by (simp add: getObjectByRowIndex_def toObject_def getValues_def getValue_def people_def
      twoTable_def upt_rec)

lemma add_bo:
  "add people boInput annTable =
     (Inr boRecord, annTable\<lparr>grid := grid annTable @ [[Num 2, Str ''Bo'', Str '''']]\<rparr>)"
proof -
  have "lockWait annTable = Some 0" by (simp add: annTable_def)
  from add_eq [OF this, of people boInput]
  show ?thesis
    unfolding idKey_people assignedId_annTable
    by (simp add: boInput_def boRecord_def toRowArray_def people_def annTable_def)
qed

lemma add_cy:
  "add people cyInput annTable =
     (Inr cyRecord, annTable\<lparr>grid := grid annTable @ [[Num 2, Str ''Cy'', Num 25]]\<rparr>)"
proof -
  have "lockWait annTable = Some 0" by (simp add: annTable_def)
  from add_eq [OF this, of people cyInput]
  show ?thesis
    unfolding idKey_people assignedId_annTable
    by (simp add: cyInput_def cyRecord_def toRowArray_def people_def annTable_def)
qed

lemma update_two_dup:
  "update people (Val (Num 2)) [''id'' \<mapsto> Val (Num 1)] twoTable = (Inr True, dupTable)"
proof -
  have l: "lockWait twoTable = Some 0" by (simp add: twoTable_def)
  have n: "length (headers people) = lastCol people" by (simp add: people_def)
  from update_found [OF l _ firstRow_twoTable_2 n, of "[''id'' \<mapsto> Val (Num 1)]"]
  show ?thesis
    unfolding getObject_twoTable_3
    by (simp add: toRowArray_def people_def twoTable_def dupTable_def)
qed

lemma remove_dup_1:
  "remove_dao people (Val (Num 1)) dupTable =
     (True, dupTable\<lparr>grid := [[Str ''id'', Str ''name'', Str ''age''], [Num 1, Str ''Bo'', Str '''']]\<rparr>)"
  by (simp add: remove_dao_def getRowIndexById_firstRow firstRow_dupTable_1 deleteRow_def)
     (simp add: dupTable_def)

section \<open>The statements of the specification\<close>

subsection \<open>add\<close>

text \<open>
  C1 says that an identifier supplied in the input of \<^verbatim>\<open>add\<close> is overwritten by the
  assigned one. The code does the opposite: the object literal defines the identifier
  property first and copies the input over it. On the table holding the one record 1, where
  the assigned identifier is 2, adding \<^verbatim>\<open>{id: 99, name: "Bo"}\<close> returns the record with
  identifier 99 and appends the row \<^verbatim>\<open>[99, "Bo", ""]\<close>. In general, whatever
  the input holds under the identifier key is what the returned record holds there
  (\<open>add_input_id_kept\<close>).
\<close>

theorem add_keeps_caller_id:
  "assignedId (grid annTable) = 2 \<and>
   add people [''id'' \<mapsto> Val (Num 99), ''name'' \<mapsto> Val (Str ''Bo'')] annTable =
     (Inr [''id'' \<mapsto> Val (Num 99), ''name'' \<mapsto> Val (Str ''Bo'')],
      annTable\<lparr>grid := grid annTable @ [[Num 99, Str ''Bo'', Str '''']]\<rparr>)"
proof -
  have "lockWait annTable = Some 0" by (simp add: annTable_def)
  from add_eq [OF this, of people "[''id'' \<mapsto> Val (Num 99), ''name'' \<mapsto> Val (Str ''Bo'')]"]
  show ?thesis
    unfolding idKey_people assignedId_annTable
    by (simp add: toRowArray_def people_def annTable_def)
qed

text \<open>
  C2, amended: the record that \<^verbatim>\<open>add\<close> returns is the record it constructed. At every
  key other than the identifier field's name it holds exactly what the input holds there,
  so a header field absent from the input is absent from the returned record; when the
  input has no identifier key it holds the assigned identifier. The empty value for a
  missing field appears only in the appended row, whose cell for each header field is the
  returned record's value there, or empty.
\<close>

theorem add_returns_constructed_record:
  assumes "add d data w = (Inr R, w')"
  shows "(\<forall>k. k \<noteq> idKey d \<longrightarrow> R k = data k) \<and>
     (data (idKey d) = None \<longrightarrow> R (idKey d) = Some (Val (Num (assignedId (grid w))))) \<and>
     grid w' = grid w @ [map (\<lambda>h. orEmpty (R (String_cell h))) (headers d)]"
  using add_Inr_eq [OF assms]
  by (auto simp add: toRowArray_def map_add_def split: option.splits)

text \<open>
  The amended C2 on the example of the specification: with the one record 1 in the table,
  adding \<^verbatim>\<open>{name: "Bo"}\<close> returns \<^verbatim>\<open>{id: 2, name: "Bo"}\<close>, without
  \<^verbatim>\<open>age\<close>, and appends the row \<^verbatim>\<open>[2, "Bo", ""]\<close>.
\<close>

theorem add_returns_constructed_record_witness:
  "add people boInput annTable =
     (Inr boRecord, annTable\<lparr>grid := grid annTable @ [[Num 2, Str ''Bo'', Str '''']]\<rparr>) \<and>
   boRecord ''name'' = Some (Val (Str ''Bo'')) \<and> boRecord ''age'' = None \<and>
   boRecord ''id'' = Some (Val (Num 2)) \<and>
   map (\<lambda>h. orEmpty (boRecord (String_cell h))) (headers people) = [Num 2, Str ''Bo'', Str '''']"
proof -
  note t = add_returns_constructed_record [OF add_bo]
  from t have a: "boRecord ''name'' = boInput ''name''" "boRecord ''age'' = boInput ''age''"
    by (simp_all add: idKey_people)
  from t have b: "boRecord ''id'' = Some (Val (Num 2))"
    by (simp add: idKey_people assignedId_annTable boInput_def)
  from t have c: "map (\<lambda>h. orEmpty (boRecord (String_cell h))) (headers people) =
      [Num 2, Str ''Bo'', Str []]"
    by simp
  show ?thesis
    using a b c add_bo by (simp add: boInput_def)
qed

text \<open>
  C2 as stated fails on its own example: the returned record is not
  \<^verbatim>\<open>{id: 2, name: "Bo", age: ""}\<close>.
\<close>

theorem add_returned_record_counterexample:
  "fst (add people [''name'' \<mapsto> Val (Str ''Bo'')] annTable) \<noteq>
     Inr [''id'' \<mapsto> Val (Num 2), ''name'' \<mapsto> Val (Str ''Bo''), ''age'' \<mapsto> Val (Str '''')]"
  using add_bo by (simp add: boInput_def boRecord_def fun_eq_iff)

text \<open>
  C3, amended: if \<^verbatim>\<open>add\<close>, on an input without the identifier key, returns the record
  \<open>R\<close> with identifier \<open>X\<close>, the table has its header row, and no row already in the
  table carries an identifier with the text form of \<open>X\<close>, then \<^verbatim>\<open>find(X)\<close> right
  after returns \<open>R\<close> brought to the header: for each header field the value of \<open>R\<close>
  there, or the empty value where \<open>R\<close> has none or holds null or undefined, and no
  other field. That record is \<open>R\<close> itself exactly when the keys of \<open>R\<close> are the header
  fields and none of its values is null or undefined.
\<close>

theorem add_find_roundtrip:
  assumes "constructed d" and "add d data w = (Inr R, w')"
    and "data (idKey d) = None" and "R (idKey d) = Some X"
    and "grid w \<noteq> []" and "firstRowWithId (grid w) X = None"
  shows "find_dao d X w' =
       Some (\<lambda>k. if k \<in> String_cell ` set (headers d) then Some (Val (orEmpty (R k))) else None) \<and>
     (find_dao d X w' = Some R \<longleftrightarrow>
        dom R = String_cell ` set (headers d) \<and> Undefined \<notin> ran R \<and> Null \<notin> ran R)"
proof -
  let ?F = "\<lambda>k. if k \<in> String_cell ` set (headers d) then Some (Val (orEmpty (R k))) else None"
  let ?g = "grid w"
  let ?row = "toRowArray d R"
  from assms(1) have len: "length (headers d) = lastCol d" and ne: "headers d \<noteq> []"
    and pos: "0 < lastCol d"
    by (auto simp add: constructed_def)
  from add_Inr_eq [OF assms(2)] have R: "R = [idKey d \<mapsto> Val (Num (assignedId ?g))] ++ data"
    and w': "grid w' = ?g @ [?row]"
    by simp_all
  from R assms(3,4) have X: "X = Val (Num (assignedId ?g))"
    by (simp add: map_add_def)
  have first: "getValue (?g @ [?row]) (Suc (length ?g)) 1 = Num (assignedId ?g)"
    using pos len toRowArray_first [OF ne, of R] assms(4) X
    by (simp add: getValue_def length_toRowArray)
  have "firstRowWithId (?g @ [?row]) X = Some (Suc (length ?g))"
    unfolding firstRow_Some_iff
  proof (intro conjI allI impI)
    show "2 \<le> Suc (length ?g)" using assms(5) by (cases ?g) simp_all
    show "Suc (length ?g) \<le> length (?g @ [?row])" by simp
    show "String_cell (getValue (?g @ [?row]) (Suc (length ?g)) 1) = String_js X"
      unfolding first X by simp
  next
    fix r' assume a: "2 \<le> r' \<and> r' < Suc (length ?g)"
    then have "getValue (?g @ [?row]) r' 1 = getValue ?g r' 1"
      by (intro getValue_appended) simp
    moreover have "String_cell (getValue ?g r' 1) \<noteq> String_js X"
      using assms(6) a unfolding firstRow_None_iff by simp
    ultimately show "String_cell (getValue (?g @ [?row]) r' 1) \<noteq> String_js X"
      by simp
  qed
  moreover have "getObjectByRowIndex d (Suc (length ?g)) (?g @ [?row]) = ?F"
    using getValues_appended [of ?g ?row] len
    by (simp add: getObjectByRowIndex_def length_toRowArray toObject_toRowArray)
  ultimately have f: "find_dao d X w' = Some ?F"
    by (simp add: find_dao_def getRowIndexById_firstRow w')
  have "?F = R \<longleftrightarrow> dom R = String_cell ` set (headers d) \<and> Undefined \<notin> ran R \<and> Null \<notin> ran R"
  proof
    assume e: "?F = R"
    have d: "dom R = String_cell ` set (headers d)"
      by (subst e [symmetric]) (auto simp add: dom_def)
    have "\<exists>c. v = Val c" if "v \<in> ran R" for v
    proof -
      from that obtain k where "R k = Some v" by (auto simp add: ran_def)
      moreover have "?F k = R k" by (rule fun_cong [OF e])
      ultimately have "?F k = Some v" by simp
      then show ?thesis by (auto split: if_splits)
    qed
    then have "Undefined \<notin> ran R \<and> Null \<notin> ran R" by blast
    with d show "dom R = String_cell ` set (headers d) \<and> Undefined \<notin> ran R \<and> Null \<notin> ran R"
      by simp
  next
    assume a: "dom R = String_cell ` set (headers d) \<and> Undefined \<notin> ran R \<and> Null \<notin> ran R"
    show "?F = R"
    proof
      fix k
      show "?F k = R k"
      proof (cases "R k")
        case None
        then have "k \<notin> String_cell ` set (headers d)" using a by blast
        with None show ?thesis by simp
      next
        case (Some v)
        then have "v \<in> ran R" by (auto simp add: ran_def)
        then obtain c where "v = Val c" using a by (cases v) auto
        moreover have "k \<in> String_cell ` set (headers d)" using Some a by blast
        ultimately show ?thesis using Some by simp
      qed
    qed
  qed
  then show ?thesis
    using f by simp
qed

text \<open>
  The amended C3 where the round trip is exact: adding \<^verbatim>\<open>{name: "Cy", age: 25}\<close> to
  the table with the one record 1 returns \<^verbatim>\<open>{id: 2, name: "Cy", age: 25}\<close>, and
  \<^verbatim>\<open>find(2)\<close> returns the same record.
\<close>

theorem add_find_roundtrip_witness:
  "constructed people \<and>
   add people cyInput annTable =
     (Inr cyRecord, annTable\<lparr>grid := grid annTable @ [[Num 2, Str ''Cy'', Num 25]]\<rparr>) \<and>
   cyInput (idKey people) = None \<and> cyRecord (idKey people) = Some (Val (Num 2)) \<and>
   grid annTable \<noteq> [] \<and> firstRowWithId (grid annTable) (Val (Num 2)) = None \<and>
   find_dao people (Val (Num 2))
     (annTable\<lparr>grid := grid annTable @ [[Num 2, Str ''Cy'', Num 25]]\<rparr>) = Some cyRecord"
proof -
  have i: "cyInput (idKey people) = None"
    by (simp add: cyInput_def idKey_people)
  have x: "cyRecord (idKey people) = Some (Val (Num 2))"
    by (simp add: cyRecord_def idKey_people)
  have g: "grid annTable \<noteq> []" by (simp add: annTable_def)
  have n: "(\<lambda>k. if k \<in> String_cell ` set (headers people)
            then Some (Val (orEmpty (cyRecord k))) else None) = cyRecord"
    by (auto simp add: fun_eq_iff people_def cyRecord_def)
  from add_find_roundtrip [OF constructed_people add_cy i x g firstRow_annTable_2]
  show ?thesis
    using constructed_people add_cy i x g firstRow_annTable_2 n by simp
qed

text \<open>
  C3 as stated fails on the example of the specification: \<^verbatim>\<open>add({name: "Bo"})\<close>
  returns \<^verbatim>\<open>{id: 2, name: "Bo"}\<close>, and \<^verbatim>\<open>find(2)\<close> right after returns a record
  that also has the field \<^verbatim>\<open>age\<close>.
\<close>

theorem add_find_counterexample:
  "fst (add people boInput annTable) = Inr boRecord \<and>
   boRecord ''id'' = Some (Val (Num 2)) \<and>
   find_dao people (Val (Num 2)) (snd (add people boInput annTable)) \<noteq> Some boRecord"
proof -
  have "firstRowWithId (grid annTable @ [[Num 2, Str ''Bo'', Str '''']]) (Val (Num 2)) = Some 3"
    by (simp add: firstRowWithId_def annTable_def getValue_def String_Nums upt_rec
        del: String_cell.simps(1))
  moreover have "getObjectByRowIndex people 3
      (grid annTable @ [[Num 2, Str ''Bo'', Str '''']]) ''age'' = Some (Val (Str ''''))"
    by (simp add: getObjectByRowIndex_def toObject_def getValues_def getValue_def people_def
        annTable_def upt_rec)
  moreover have "boRecord ''age'' = None"
    by (simp add: boRecord_def)
  ultimately have "find_dao people (Val (Num 2)) (snd (add people boInput annTable)) \<noteq> Some boRecord"
    unfolding add_bo by (auto simp add: find_dao_def getRowIndexById_firstRow)
  then show ?thesis
    by (simp add: add_bo boRecord_def)
qed

text \<open>
  C4 says that the adds on a table with only its header row return the identifiers 1, 2,
  ... in call order. The code misses this where an input carries the identifier key, by
  the defect of C1: on the table with only its header row, adding
  \<^verbatim>\<open>{id: 7, name: "Ann"}\<close> and then \<^verbatim>\<open>{name: "Bo"}\<close> returns the identifiers 7
  and 8. For inputs without the identifier key the identifiers are 1, 2, ..., as
  \<open>add_calls_ids_header_only\<close> shows.
\<close>

theorem add_calls_caller_id:
  "fst (add_calls people
       [[''id'' \<mapsto> Val (Num 7), ''name'' \<mapsto> Val (Str ''Ann'')], [''name'' \<mapsto> Val (Str ''Bo'')]]
       emptyTable) =
     Inr [[''id'' \<mapsto> Val (Num 7), ''name'' \<mapsto> Val (Str ''Ann'')],
          [''id'' \<mapsto> Val (Num 8), ''name'' \<mapsto> Val (Str ''Bo'')]]"
proof -
  let ?w1 = "emptyTable\<lparr>grid := grid emptyTable @ [[Num 7, Str ''Ann'', Str '''']]\<rparr>"
  have l0: "lockWait emptyTable = Some 0" by (simp add: emptyTable_def)
  have l1: "lockWait ?w1 = Some 0" by (simp add: emptyTable_def)
  have a1: "assignedId (grid ?w1) = 8"
    by (simp add: assignedId_def emptyTable_def getValue_def)
  have 1: "add people [''id'' \<mapsto> Val (Num 7), ''name'' \<mapsto> Val (Str ''Ann'')] emptyTable =
      (Inr [''id'' \<mapsto> Val (Num 7), ''name'' \<mapsto> Val (Str ''Ann'')], ?w1)"
    using add_eq [OF l0, of people "[''id'' \<mapsto> Val (Num 7), ''name'' \<mapsto> Val (Str ''Ann'')]"]
    unfolding idKey_people assignedId_emptyTable
    by (simp add: toRowArray_def people_def emptyTable_def)
  have 2: "add people [''name'' \<mapsto> Val (Str ''Bo'')] ?w1 =
      (Inr [''id'' \<mapsto> Val (Num 8), ''name'' \<mapsto> Val (Str ''Bo'')],
       ?w1\<lparr>grid := grid ?w1 @ [[Num 8, Str ''Bo'', Str []]]\<rparr>)"
    using add_eq [OF l1, of people "[''name'' \<mapsto> Val (Str ''Bo'')]"]
    unfolding idKey_people a1
    by (simp add: toRowArray_def people_def emptyTable_def)
  show ?thesis
    using 1 2 by simp
qed

subsection \<open>update\<close>



text \<open>
  C6: when no data row carries the identifier, \<^verbatim>\<open>update\<close> returns false and the sheet
  is the one it was; the only change of the state is that the lock is released. The lock
  is obtained within its bound.
\<close>

theorem update_missing_id:
  assumes "lockWait w = Some t" and "t \<le> 30000"
    and "firstRowWithId (grid w) ident = None"
  shows "fst (update d ident data w) = Inr False \<and>
     grid (snd (update d ident data w)) = grid w \<and>
     snd (update d ident data w) = w\<lparr>lockHeld := False\<rparr>"
  using update_missing [OF assms] by simp

text \<open>C6 on the table with the records 1 and 2: \<^verbatim>\<open>update(7, {age: 31})\<close>.\<close>

theorem update_missing_id_witness:
  "lockWait twoTable = Some 0 \<and> (0::nat) \<le> 30000 \<and>
   firstRowWithId (grid twoTable) (Val (Num 7)) = None \<and>
   update people (Val (Num 7)) [''age'' \<mapsto> Val (Num 31)] twoTable = (Inr False, twoTable)"
proof -
  have l: "lockWait twoTable = Some 0" by (simp add: twoTable_def)
  have b: "(0::nat) \<le> 30000" by simp
  have e: "twoTable\<lparr>lockHeld := False\<rparr> = twoTable" by (simp add: twoTable_def)
  note t = update_missing_id [OF l b firstRow_twoTable_7,
      where d = people and data = "[''age'' \<mapsto> Val (Num 31)]"]
  have "update people (Val (Num 7)) [''age'' \<mapsto> Val (Num 31)] twoTable = (Inr False, twoTable)"
    using t [THEN conjunct1] t [THEN conjunct2, THEN conjunct2] unfolding e
    by (simp add: prod_eq_iff)
  then show ?thesis
    using l b firstRow_twoTable_7 by blast
qed

text \<open>
  C10: for an existing record (row \<open>r\<close>) and an input that holds a scalar \<open>v\<close> under the
  identifier field's name, \<^verbatim>\<open>update\<close> returns true and the identifier cell of row
  \<open>r\<close> holds \<open>v\<close> afterwards: the merge does not protect the identifier. On the table
  with the records 1 and 2, whose identifiers are distinct, \<^verbatim>\<open>update(2, {id: 1})\<close>
  leaves two rows with the identifier 1.
\<close>

theorem update_overwrites_id:
  assumes "constructed d" and "lockWait w = Some t" and "t \<le> 30000"
    and "firstRowWithId (grid w) ident = Some r"
    and "data (idKey d) = Some (Val v)"
  shows "fst (update d ident data w) = Inr True \<and>
     getValue (grid (snd (update d ident data w))) r 1 = v \<and>
     distinct (map (\<lambda>row. String_cell (row ! 0)) (tl (grid twoTable))) \<and>
     \<not> distinct (map (\<lambda>row. String_cell (row ! 0))
          (tl (grid (snd (update people (Val (Num 2)) [''id'' \<mapsto> Val (Num 1)] twoTable)))))"
proof -
  have "distinct (map (\<lambda>row. String_cell (row ! 0)) (tl (grid twoTable)))"
    by (simp add: twoTable_def String_Nums del: String_cell.simps(1))
  moreover have "\<not> distinct (map (\<lambda>row. String_cell (row ! 0))
          (tl (grid (snd (update people (Val (Num 2)) [''id'' \<mapsto> Val (Num 1)] twoTable)))))"
    by (simp add: update_two_dup dupTable_def)
  ultimately show ?thesis
    using update_id_cell [OF assms(1-4), of data] assms(5)
    by (simp add: map_add_def)
qed

text \<open>C10 on the table with the records 1 and 2: \<^verbatim>\<open>update(2, {id: 1})\<close>.\<close>

theorem update_overwrites_id_witness:
  "constructed people \<and> lockWait twoTable = Some 0 \<and> (0::nat) \<le> 30000 \<and>
   firstRowWithId (grid twoTable) (Val (Num 2)) = Some 3 \<and>
   [''id'' \<mapsto> Val (Num 1)] (idKey people) = Some (Val (Num 1)) \<and>
   fst (update people (Val (Num 2)) [''id'' \<mapsto> Val (Num 1)] twoTable) = Inr True \<and>
   getValue (grid (snd (update people (Val (Num 2)) [''id'' \<mapsto> Val (Num 1)] twoTable))) 3 1 = Num 1"
proof -
  have l: "lockWait twoTable = Some 0" by (simp add: twoTable_def)
  have b: "(0::nat) \<le> 30000" by simp
  have k: "[''id'' \<mapsto> Val (Num 1)] (idKey people) = Some (Val (Num 1))"
    by (simp add: idKey_people)
  note t = update_overwrites_id [where d = people and data = "[''id'' \<mapsto> Val (Num 1)]",
      OF constructed_people l b firstRow_twoTable_2 k]
  show ?thesis
    using constructed_people l b firstRow_twoTable_2 k t [THEN conjunct1]
      t [THEN conjunct2, THEN conjunct1] by blast
qed

subsection \<open>remove and find\<close>

text \<open>
  C7, amended: \<^verbatim>\<open>remove\<close> on an identifier carried by a data row returns true and
  deletes exactly the first such row \<open>r\<close>, the rows below it moving up by one and every
  other row staying as it was. A following \<^verbatim>\<open>find\<close> of the identifier returns null
  exactly when no row below \<open>r\<close> carried the same identifier text; otherwise it returns
  the record of the next such row: each header name with the cell that row had in its
  column. On an identifier carried by no data row \<^verbatim>\<open>remove\<close> returns false and
  changes nothing.
\<close>

theorem remove_first_match:
  "(firstRowWithId (grid w) ident = Some r \<longrightarrow>
      remove_dao d ident w = (True, w\<lparr>grid := take (r - 1) (grid w) @ drop r (grid w)\<rparr>) \<and>
      (find_dao d ident (snd (remove_dao d ident w)) = None \<longleftrightarrow>
         (\<forall>r'. r < r' \<and> r' \<le> length (grid w) \<longrightarrow>
            String_cell (getValue (grid w) r' 1) \<noteq> String_js ident)) \<and>
      (constructed d \<longrightarrow>
         find_dao d ident (snd (remove_dao d ident w)) =
           (case nextRowWithId (grid w) ident r of
              None \<Rightarrow> None
            | Some r' \<Rightarrow> Some (rowRecord d (grid w) r')))) \<and>
   (firstRowWithId (grid w) ident = None \<longrightarrow> remove_dao d ident w = (False, w))"
proof (intro conjI impI)
  assume a: "firstRowWithId (grid w) ident = Some r"
  then show rm: "remove_dao d ident w = (True, w\<lparr>grid := take (r - 1) (grid w) @ drop r (grid w)\<rparr>)"
    by (simp add: remove_dao_def getRowIndexById_firstRow deleteRow_def)
  have "find_dao d ident (snd (remove_dao d ident w)) = None \<longleftrightarrow>
        firstRowWithId (deleteRow r (grid w)) ident = None"
    unfolding rm by (simp add: find_dao_def getRowIndexById_firstRow deleteRow_def split: option.splits)
  then show "find_dao d ident (snd (remove_dao d ident w)) = None \<longleftrightarrow>
         (\<forall>r'. r < r' \<and> r' \<le> length (grid w) \<longrightarrow>
            String_cell (getValue (grid w) r' 1) \<noteq> String_js ident)"
    using find_after_remove [OF a] by simp
  assume "constructed d"
  then show "find_dao d ident (snd (remove_dao d ident w)) =
           (case nextRowWithId (grid w) ident r of
              None \<Rightarrow> None
            | Some r' \<Rightarrow> Some (rowRecord d (grid w) r'))"
    using a by (rule find_after_remove_record)
next
  assume "firstRowWithId (grid w) ident = None"
  then show "remove_dao d ident w = (False, w)"
    by (simp add: remove_dao_def getRowIndexById_firstRow)
qed

text \<open>
  The amended C7 on the table with the records 1 and 2: \<^verbatim>\<open>remove(2)\<close> leaves the table
  with the record 1, where \<^verbatim>\<open>find(2)\<close> is null, and \<^verbatim>\<open>remove(7)\<close> changes
  nothing; and on the table where the rows of Ann and Bo both carry the identifier 1:
  after \<^verbatim>\<open>remove(1)\<close>, \<^verbatim>\<open>find(1)\<close> returns \<^verbatim>\<open>{id: 1, name: "Bo", age: ""}\<close>.
\<close>

theorem remove_first_match_witness:
  "firstRowWithId (grid twoTable) (Val (Num 2)) = Some 3 \<and>
   remove_dao people (Val (Num 2)) twoTable = (True, annTable) \<and>
   find_dao people (Val (Num 2)) (snd (remove_dao people (Val (Num 2)) twoTable)) = None \<and>
   firstRowWithId (grid twoTable) (Val (Num 7)) = None \<and>
   remove_dao people (Val (Num 7)) twoTable = (False, twoTable) \<and>
   constructed people \<and>
   firstRowWithId (grid dupTable) (Val (Num 1)) = Some 2 \<and>
   find_dao people (Val (Num 1)) (snd (remove_dao people (Val (Num 1)) dupTable)) =
     Some [''id'' \<mapsto> Val (Num 1), ''name'' \<mapsto> Val (Str ''Bo''), ''age'' \<mapsto> Val (Str '''')]"
proof -
  have e: "twoTable\<lparr>grid := take (3 - 1) (grid twoTable) @ drop 3 (grid twoTable)\<rparr> = annTable"
    by (simp add: twoTable_def annTable_def)
  note t = remove_first_match [where w = twoTable and ident = "Val (Num 2)" and r = 3
      and d = people, THEN conjunct1, rule_format, OF firstRow_twoTable_2]
  note s = remove_first_match [where w = twoTable and ident = "Val (Num 7)" and r = 3
      and d = people, THEN conjunct2, rule_format, OF firstRow_twoTable_7]
  note u = remove_first_match [where w = dupTable and ident = "Val (Num 1)" and r = 2
      and d = people, THEN conjunct1, rule_format, OF firstRow_dupTable_1]
  have 1: "remove_dao people (Val (Num 2)) twoTable = (True, annTable)"
    using t [THEN conjunct1] unfolding e .
  have 2: "find_dao people (Val (Num 2)) (snd (remove_dao people (Val (Num 2)) twoTable)) = None"
    using t [THEN conjunct2, THEN conjunct2, rule_format, OF constructed_people]
    by (simp add: nextRow_twoTable_2)
  have 3: "find_dao people (Val (Num 1)) (snd (remove_dao people (Val (Num 1)) dupTable)) =
     Some [''id'' \<mapsto> Val (Num 1), ''name'' \<mapsto> Val (Str ''Bo''), ''age'' \<mapsto> Val (Str '''')]"
    using u [THEN conjunct2, THEN conjunct2, rule_format, OF constructed_people]
    by (simp add: nextRow_dupTable_1 rowRecord_dupTable_3)
  show ?thesis
    using firstRow_twoTable_2 firstRow_twoTable_7 firstRow_dupTable_1 constructed_people s 1 2 3
    by blast
qed

text \<open>
  C7 as stated fails where two rows carry the same identifier, a state that
  \<^verbatim>\<open>update(2, {id: 1})\<close> reaches from the table with the records 1 and 2:
  \<^verbatim>\<open>remove(1)\<close> returns true and \<^verbatim>\<open>find(1)\<close> still finds a record.
\<close>

theorem remove_find_counterexample:
  "snd (update people (Val (Num 2)) [''id'' \<mapsto> Val (Num 1)] twoTable) = dupTable \<and>
   fst (remove_dao people (Val (Num 1)) dupTable) = True \<and>
   find_dao people (Val (Num 1)) (snd (remove_dao people (Val (Num 1)) dupTable)) \<noteq> None"
proof -
  have "firstRowWithId [[Str ''id'', Str ''name'', Str ''age''], [Num 1, Str ''Bo'', Str '''']]
      (Val (Num 1)) = Some 2"
    by (simp add: firstRowWithId_def getValue_def String_Nums upt_rec del: String_cell.simps(1))
  then have "find_dao people (Val (Num 1)) (snd (remove_dao people (Val (Num 1)) dupTable)) \<noteq> None"
    unfolding remove_dup_1 by (simp add: find_dao_def getRowIndexById_firstRow)
  then show ?thesis
    by (simp add: update_two_dup remove_dup_1)
qed

text \<open>
  C8: \<^verbatim>\<open>find\<close> returns the record of the first data row, from the top, whose
  identifier converted to a text is the text form of the requested identifier (each
  header name with the cell of that row in its column), and the null value when there is
  none; a number and its text form find the same, in particular 5 and the text 5.
\<close>

theorem find_first_match:
  "(constructed d \<longrightarrow>
      find_dao d ident w =
        (case firstRowWithId (grid w) ident of
           None \<Rightarrow> None
         | Some r \<Rightarrow> Some (rowRecord d (grid w) r))) \<and>
   find_dao d (Val (Num n)) w = find_dao d (Val (Str (String_cell (Num n)))) w \<and>
   find_dao d (Val (Num 5)) w = find_dao d (Val (Str ''5'')) w"
proof -
  have a: "find_dao d ident w =
     (case firstRowWithId (grid w) ident of
        None \<Rightarrow> None
      | Some r \<Rightarrow> Some (getObjectByRowIndex d r (grid w)))" for ident
    by (simp add: find_dao_def getRowIndexById_firstRow)
  have b: "firstRowWithId (grid w) (Val (Num m)) =
      firstRowWithId (grid w) (Val (Str (String_cell (Num m))))" for m
    unfolding firstRowWithId_def String_js.simps String_cell.simps(2) by (rule refl)
  have c: "find_dao d (Val (Num m)) w = find_dao d (Val (Str (String_cell (Num m)))) w" for m
    unfolding a b [of m] by (rule refl)
  have r: "find_dao d ident w =
        (case firstRowWithId (grid w) ident of
           None \<Rightarrow> None
         | Some r \<Rightarrow> Some (rowRecord d (grid w) r))" if "constructed d"
    unfolding a by (simp add: getObject_rowRecord [OF that] split: option.splits)
  show ?thesis
    using r c [of n] c [of 5] unfolding String_Num_5 by blast
qed

text \<open>
  C8 on the table with the record \<^verbatim>\<open>{id: 1, name: "Ann", age: 30}\<close>:
  \<^verbatim>\<open>find(1)\<close> and \<^verbatim>\<open>find("1")\<close> return that record, and \<^verbatim>\<open>find(2)\<close> is null.
\<close>

theorem find_first_match_witness:
  "constructed people \<and>
   firstRowWithId (grid annTable) (Val (Num 1)) = Some 2 \<and>
   find_dao people (Val (Num 1)) annTable =
     Some [''id'' \<mapsto> Val (Num 1), ''name'' \<mapsto> Val (Str ''Ann''), ''age'' \<mapsto> Val (Num 30)] \<and>
   find_dao people (Val (Str ''1'')) annTable =
     Some [''id'' \<mapsto> Val (Num 1), ''name'' \<mapsto> Val (Str ''Ann''), ''age'' \<mapsto> Val (Num 30)] \<and>
   firstRowWithId (grid annTable) (Val (Num 2)) = None \<and>
   find_dao people (Val (Num 2)) annTable = None"
proof -
  note t = find_first_match [where d = people and w = annTable, THEN conjunct1, rule_format,
      OF constructed_people]
  have 1: "find_dao people (Val (Num 1)) annTable =
     Some [''id'' \<mapsto> Val (Num 1), ''name'' \<mapsto> Val (Str ''Ann''), ''age'' \<mapsto> Val (Num 30)]"
    by (simp add: t [of "Val (Num 1)"] firstRow_annTable_1 rowRecord_annTable_2)
  have 2: "find_dao people (Val (Str ''1'')) annTable =
     Some [''id'' \<mapsto> Val (Num 1), ''name'' \<mapsto> Val (Str ''Ann''), ''age'' \<mapsto> Val (Num 30)]"
    by (simp add: t [of "Val (Str ''1'')"] firstRow_annTable_text_1 rowRecord_annTable_2)
  have 3: "find_dao people (Val (Num 2)) annTable = None"
    by (simp add: t [of "Val (Num 2)"] firstRow_annTable_2)
  show ?thesis
    using constructed_people firstRow_annTable_1 firstRow_annTable_2 1 2 3 by blast
qed

subsection \<open>The lock\<close>

text \<open>
  C9: when the lock is not obtained within 30000 milliseconds, \<^verbatim>\<open>add\<close> and
  \<^verbatim>\<open>update\<close> end with the timeout error, whatever the sheet holds, and leave the
  sheet as it was; and after every call of either, on every path, the lock is not held.
\<close>

theorem lock_timeout_aborts:
  "(waitLock 30000 w = Inl e \<longrightarrow>
      add d data w = (Inl LockTimeout, w\<lparr>lockHeld := False\<rparr>) \<and>
      update d ident data w = (Inl LockTimeout, w\<lparr>lockHeld := False\<rparr>)) \<and>
   \<not> lockHeld (snd (add d data w)) \<and>
   \<not> lockHeld (snd (update d ident data w))"
proof -
  have "\<not> lockHeld (snd (add d data w))"
    by (simp add: add_def releaseLock_def split: prod.splits)
  moreover have "\<not> lockHeld (snd (update d ident data w))"
    by (simp add: update_def releaseLock_def split: prod.splits)
  ultimately show ?thesis
    using add_timeout update_timeout by blast
qed

text \<open>
  C9 where the lock would take 30001 milliseconds: both calls end with the timeout error
  and the state is the one it was.
\<close>

theorem lock_timeout_aborts_witness:
  "waitLock 30000 busyTable = Inl LockTimeout \<and>
   add people [''name'' \<mapsto> Val (Str ''Bo'')] busyTable = (Inl LockTimeout, busyTable) \<and>
   update people (Val (Num 1)) [''name'' \<mapsto> Val (Str ''Bo'')] busyTable =
     (Inl LockTimeout, busyTable) \<and>
   \<not> lockHeld (snd (add people [''name'' \<mapsto> Val (Str ''Bo'')] annTable)) \<and>
   \<not> lockHeld (snd (update people (Val (Num 1)) [''name'' \<mapsto> Val (Str ''Bo'')] annTable))"
proof -
  have w: "waitLock 30000 busyTable = Inl LockTimeout"
    by (simp add: waitLock_def busyTable_def)
  have e: "busyTable\<lparr>lockHeld := False\<rparr> = busyTable" by (simp add: busyTable_def)
  note t = lock_timeout_aborts [where w = busyTable and e = LockTimeout and d = people
      and data = "[''name'' \<mapsto> Val (Str ''Bo'')]" and ident = "Val (Num 1)"]
  note s = lock_timeout_aborts [where w = annTable and e = LockTimeout and d = people
      and data = "[''name'' \<mapsto> Val (Str ''Bo'')]" and ident = "Val (Num 1)"]
  from t w have "add people [''name'' \<mapsto> Val (Str ''Bo'')] busyTable = (Inl LockTimeout, busyTable)"
    and "update people (Val (Num 1)) [''name'' \<mapsto> Val (Str ''Bo'')] busyTable =
      (Inl LockTimeout, busyTable)"
    unfolding e by blast+
  then show ?thesis
    using w s by blast
qed

end
